theory Spec2Isabelle
  imports Main
begin

section \<open>PyOne: expansion of a one-liner into indented Python code\<close>

text \<open>
  The development embeds \<^verbatim>\<open>src/pyone.py\<close>: the helper \<^verbatim>\<open>toint\<close>, the regular
  expression \<^verbatim>\<open>PAT\<close> and the function \<^verbatim>\<open>make_script\<close> with its inner function
  \<^verbatim>\<open>add\<close>. A Python string is a \<^typ>\<open>string\<close>: the characters are the code points
  below 256. Positions in the string (\<^verbatim>\<open>b\<close>, \<^verbatim>\<open>i\<close>, \<^verbatim>\<open>e\<close>) are natural numbers, the
  indentation counter is an integer, as it is decremented before it is tested.
\<close>

subsection \<open>Python string primitives\<close>

text \<open>
  \<^verbatim>\<open>str.isspace\<close> on one character, for the code points below 256: tab, line feed,
  vertical tab, form feed, carriage return, the four separators 0x1C to 0x1F, the space,
  NEL (0x85) and the no-break space (0xA0).
\<close>

definition isspace :: "char \<Rightarrow> bool" where
  "isspace c = (c \<in> {CHR 0x09, CHR 0x0A, CHR 0x0B, CHR 0x0C, CHR 0x0D,
                      CHR 0x1C, CHR 0x1D, CHR 0x1E, CHR 0x1F, CHR 0x20,
                      CHR 0x85, CHR 0xA0})"

text \<open>\<^verbatim>\<open>line.strip()\<close>: whitespace is removed at both ends.\<close>

definition strip :: "string \<Rightarrow> string" where
  "strip line = rev (dropWhile isspace (rev (dropWhile isspace line)))"

text \<open>
  A slice bound of Python, for a string of length \<open>n\<close>: a negative bound counts from
  the end, and every bound is clamped to the range from 0 to \<open>n\<close>.
\<close>

definition py_bound :: "nat \<Rightarrow> int \<Rightarrow> nat" where
  "py_bound n k = (if k < 0 then nat (max 0 (int n + k)) else min n (nat k))"

text \<open>\<^verbatim>\<open>s[lo:hi]\<close> and \<^verbatim>\<open>s[lo:]\<close>.\<close>

definition py_slice :: "string \<Rightarrow> int \<Rightarrow> int \<Rightarrow> string" where
  "py_slice s lo hi =
     (let a = py_bound (length s) lo; z = py_bound (length s) hi
      in take (z - a) (drop a s))"

definition py_slice_from :: "string \<Rightarrow> int \<Rightarrow> string" where
  "py_slice_from s lo = drop (py_bound (length s) lo) s"

text \<open>\<^verbatim>\<open>s[k]\<close>: a negative index counts from the end; out of range it raises IndexError.\<close>

definition py_getitem :: "string \<Rightarrow> int \<Rightarrow> char option" where
  "py_getitem s k =
     (let j = (if k < 0 then k + int (length s) else k)
      in if 0 \<le> j \<and> j < int (length s) then Some (s ! nat j) else None)"

subsection \<open>The helper toint\<close>

text \<open>
  \<^verbatim>\<open>def toint(x, v=0): try: return int(x) except ValueError: return v\<close>.
  The builtin \<^verbatim>\<open>int\<close> is not code of the program: it is the parameter \<open>int_builtin\<close>, which
  gives \<open>None\<close> where \<^verbatim>\<open>int\<close> raises ValueError on a string.
\<close>

definition toint :: "(string \<Rightarrow> int option) \<Rightarrow> string \<Rightarrow> int \<Rightarrow> int" where
  "toint int_builtin x v = (case int_builtin x of Some n \<Rightarrow> n | None \<Rightarrow> v)"

subsection \<open>The regular expression PAT\<close>

text \<open>
  The pattern is \<^verbatim>\<open>[^"'{};]*([{};]|"(\\.|[^"])*"|'(\\.|[^'])*')\<close>, matched by a
  backtracking engine. \<open>plain\<close> is the character class \<^verbatim>\<open>[^"'{};]\<close>.
\<close>

definition plain :: "char \<Rightarrow> bool" where
  "plain c = (c \<notin> {CHR 0x22, CHR 0x27, CHR ''{'', CHR ''}'', CHR '';''})"

text \<open>
  A backtracking engine tries the first way to match and, where it fails, the second.
\<close>

definition orelse :: "'a option \<Rightarrow> 'a option \<Rightarrow> 'a option" where
  "orelse x y = (case x of Some v \<Rightarrow> Some v | None \<Rightarrow> y)"

text \<open>
  \<open>quoted q cs\<close> matches \<^verbatim>\<open>(\\.|[^q])*q\<close> at the start of \<open>cs\<close>, the text after the
  opening quote \<open>q\<close>, and gives the number of characters matched. The star is greedy and
  the alternatives are tried in order: first one more round with a backslash and any
  character but a line feed, then one more round with one character that is not the
  quote; when neither leads to a match, the star stops and the closing quote is tried.
\<close>

fun quoted :: "char \<Rightarrow> string \<Rightarrow> nat option" where
  "quoted q [] = None"
| "quoted q (c # cs) =
     orelse (case cs of
               d # ds \<Rightarrow>
                 if c = CHR 0x5C \<and> d \<noteq> CHR 0x0A
                 then map_option (\<lambda>k. k + 2) (quoted q ds) else None
             | [] \<Rightarrow> None)
    (orelse (if c \<noteq> q then map_option Suc (quoted q cs) else None)
            (if c = q then Some 1 else None))"

text \<open>
  \<open>PAT cs\<close> matches the whole pattern at the start of \<open>cs\<close> and gives the number of
  characters matched. After the greedy run of plain characters comes one delimiter or
  one quoted literal; giving a plain character back never helps, as the group starts
  with a character that is not plain.
\<close>

fun PAT :: "string \<Rightarrow> nat option" where
  "PAT [] = None"
| "PAT (c # cs) =
     (if plain c then map_option Suc (PAT cs)
      else if c \<in> {CHR ''{'', CHR ''}'', CHR '';''} then Some 1
      else map_option Suc (quoted c cs))"

text \<open>\<^verbatim>\<open>m = PAT.match(s, i)\<close> followed by \<^verbatim>\<open>m.end(0)\<close>: the end of the match, if any.\<close>

definition PAT_match :: "string \<Rightarrow> nat \<Rightarrow> nat option" where
  "PAT_match s pos = map_option (\<lambda>k. pos + k) (PAT (drop pos s))"

subsection \<open>make_script\<close>

datatype error = SyntaxError string | IndexError

text \<open>The local variables of \<^verbatim>\<open>make_script\<close>.\<close>

record state =
  b :: nat
  i :: nat
  indent :: int
  lines :: "string list"

text \<open>
  The inner function \<^verbatim>\<open>add\<close>, on the state it closes over. Python's
  \<^verbatim>\<open>'    '*indent\<close> is the empty string for a negative \<^verbatim>\<open>indent\<close>.
\<close>

definition add :: "string \<Rightarrow> state \<Rightarrow> state" where
  "add line st =
     (let line = strip line
      in if line \<noteq> []
         then st\<lparr>lines := lines st @ [concat (replicate (nat (indent st)) ''    '') @ line]\<rparr>
         else st)"

text \<open>What one iteration of the \<^verbatim>\<open>while\<close> loop does.\<close>

datatype outcome = Continue state | Break state | Raise error

definition body :: "string \<Rightarrow> state \<Rightarrow> outcome" where
  "body s st =
     (case PAT_match s (i st) of
        None \<Rightarrow> Break (add (py_slice_from s (int (b st))) st)
      | Some e \<Rightarrow>
          if py_slice s (int e - 3) (int e) = ''EL{'' then
            let st = add (py_slice s (int (b st)) (int e - 3)) st;
                st = add ''for (L,S) in enumerate(fileinput.input()):'' st;
                st = st\<lparr>indent := indent st + 1\<rparr>;
                st = add ''s = S.strip()'' st;
                st = add ''F = s.split(DELIM)'' st;
                st = add ''I = [ toint(v) for v in F ]'' st
            in Continue (st\<lparr>b := e, i := e\<rparr>)
          else
            (case py_getitem s (int e - 1) of
               None \<Rightarrow> Raise IndexError
             | Some c \<Rightarrow>
                 if c = CHR ''{'' then
                   let st = add (py_slice s (int (b st)) (int e - 1) @ '':'') st;
                       st = st\<lparr>indent := indent st + 1\<rparr>
                   in Continue (st\<lparr>b := e, i := e\<rparr>)
                 else if c = CHR ''}'' then
                   let st' = add (py_slice s (int (b st)) (int e - 1)) st;
                       st' = st'\<lparr>indent := indent st' - 1\<rparr>
                   in if indent st' < 0
                      then Raise (SyntaxError (''Invalid Syntax: '' @ py_slice_from s (int (b st))))
                      else Continue (st'\<lparr>b := e, i := e\<rparr>)
                 else if c = CHR '';'' then
                   let st = add (py_slice s (int (b st)) (int e - 1)) st
                   in Continue (st\<lparr>b := e, i := e\<rparr>)
                 else Continue (st\<lparr>i := e\<rparr>)))"

subsection \<open>Every match consumes a character\<close>

lemma orelse_Some: "orelse x y = Some k \<longleftrightarrow> x = Some k \<or> (x = None \<and> y = Some k)"
  by (cases x) (auto simp: orelse_def)

lemma quoted_bounds: "quoted q cs = Some k \<Longrightarrow> 0 < k \<and> k \<le> length cs"
proof (induction q cs arbitrary: k rule: quoted.induct)
  case (1 q)
  then show ?case by simp
next
  case (2 q c cs)
  show ?case
  proof (cases cs)
    case Nil
    with 2 show ?thesis by (auto simp: orelse_Some split: if_splits)
  next
    case (Cons d ds)
    with 2 show ?thesis by (fastforce simp: orelse_Some split: if_splits)
  qed
qed

lemma PAT_bounds: "PAT cs = Some k \<Longrightarrow> 0 < k \<and> k \<le> length cs"
proof (induction cs arbitrary: k)
  case Nil
  then show ?case by simp
next
  case (Cons c cs)
  then show ?case
    by (auto split: if_splits dest: quoted_bounds)
qed

lemma PAT_match_bounds: "PAT_match s pos = Some e \<Longrightarrow> pos < e \<and> e \<le> pos + length (drop pos s)"
  by (auto simp: PAT_match_def dest: PAT_bounds)

lemma add_b [simp]: "b (add line st) = b st"
  and add_i [simp]: "i (add line st) = i st"
  and add_indent [simp]: "indent (add line st) = indent st"
  by (simp_all add: add_def Let_def)

lemma body_Continue_i:
  assumes "body s st = Continue st'"
  shows "\<exists>e. PAT_match s (i st) = Some e \<and> i st' = e"
proof (cases "PAT_match s (i st)")
  case None
  with assms show ?thesis by (simp add: body_def)
next
  case (Some e)
  with assms have "i st' = e"
    by (auto simp: body_def Let_def split: if_splits option.splits)
  with Some show ?thesis by simp
qed

text \<open>
  The loop \<^verbatim>\<open>while i < len(s)\<close>. It gives the state at the exit of the loop, or the
  exception raised.
\<close>

function loop :: "string \<Rightarrow> state \<Rightarrow> error + state" where
  "loop s st =
     (if i st < length s then
        (case body s st of
           Continue st' \<Rightarrow> loop s st'
         | Break st' \<Rightarrow> Inr st'
         | Raise err \<Rightarrow> Inl err)
      else Inr st)"
  by pat_completeness auto
termination
proof (relation "measure (\<lambda>(s, st). length s - i st)")
  show "wf (measure (\<lambda>(s, st). length s - i st))"
    by simp
next
  fix s :: string and st st' :: state
  assume less: "i st < length s" and cont: "body s st = Continue st'"
  from cont obtain e where "PAT_match s (i st) = Some e" and "i st' = e"
    using body_Continue_i by blast
  then have "i st < i st'"
    using PAT_match_bounds by blast
  with less show "((s, st'), (s, st)) \<in> measure (\<lambda>(s, st). length s - i st)"
    by simp
qed

declare loop.simps [simp del]

definition initial :: state where
  "initial = \<lparr>b = 0, i = 0, indent = 0, lines = []\<rparr>"

definition make_script :: "string \<Rightarrow> error + string list" where
  "make_script s = (case loop s initial of Inl err \<Rightarrow> Inl err | Inr st \<Rightarrow> Inr (lines st))"

text \<open>
  An output line at depth \<open>d\<close>: the indentation unit of four spaces, \<open>d\<close> times, and
  the content.
\<close>

definition at_depth :: "nat \<Rightarrow> string \<Rightarrow> string" where
  "at_depth d content = concat (replicate d ''    '') @ content"

text \<open>
  The state after \<open>n\<close> iterations of the loop, when the loop is still running then:
  \<open>None\<close> when it has left before, by its condition, by \<^verbatim>\<open>break\<close> or by an exception.
\<close>

fun iterate :: "nat \<Rightarrow> string \<Rightarrow> state \<Rightarrow> state option" where
  "iterate 0 s st = Some st"
| "iterate (Suc n) s st =
     (if i st < length s then
        (case body s st of Continue st' \<Rightarrow> iterate n s st' | Break st' \<Rightarrow> None | Raise err \<Rightarrow> None)
      else None)"

text \<open>The number of lines of a result, and the depth after \<open>n\<close> iterations.\<close>

definition line_count :: "error + string list \<Rightarrow> nat option" where
  "line_count r = (case r of Inl err \<Rightarrow> None | Inr ls \<Rightarrow> Some (length ls))"

definition depth_after :: "nat \<Rightarrow> string \<Rightarrow> int option" where
  "depth_after n s = map_option indent (iterate n s initial)"

text \<open>
  The shape of an output line: the indentation unit some number of times, and after it
  a text that is not empty and neither begins nor ends with whitespace.
\<close>

definition line_shape :: "string \<Rightarrow> bool" where
  "line_shape l = (\<exists>d t. l = concat (replicate d ''    '') @ t \<and> t \<noteq> [] \<and>
                         \<not> isspace (hd t) \<and> \<not> isspace (last t))"

definition shaped :: "state \<Rightarrow> bool" where
  "shaped st = (\<forall>l\<in>set (lines st). line_shape l)"

subsection \<open>Slices and indexing at positions inside the string\<close>

lemma py_bound_nat: "py_bound n (int k) = min n k"
  by (simp add: py_bound_def)

lemma py_slice_nat: "py_slice s (int lo) (int hi) = take (min (length s) hi - min (length s) lo) (drop (min (length s) lo) s)"
  by (simp add: py_slice_def py_bound_nat Let_def)

lemma py_slice_span:
  assumes "k \<le> e" and "e \<le> length s"
  shows "py_slice s (int pos) (int e - int k) = take (e - k - pos) (drop pos s)"
proof -
  from assms have eq: "int e - int k = int (e - k)"
    by simp
  from assms have le: "e - k \<le> length s"
    by simp
  show ?thesis
    unfolding eq py_slice_nat using le
    by (cases "pos \<le> length s") (simp_all add: min_def)
qed

lemma py_slice_EL:
  "py_slice s (int e - 3) (int e) = ''EL{'' \<longleftrightarrow>
     3 \<le> e \<and> e \<le> length s \<and> take 3 (drop (e - 3) s) = ''EL{''"
proof (cases "3 \<le> e")
  case True
  then have eq: "int e - 3 = int (e - 3)"
    by simp
  show ?thesis
  proof (cases "e \<le> length s")
    case le: True
    with True have "min (length s) e = e" "min (length s) (e - 3) = e - 3" "e - (e - 3) = 3"
      by simp_all
    with True le show ?thesis
      unfolding eq py_slice_def py_bound_nat Let_def by simp
  next
    case False
    then have "length (py_slice s (int e - 3) (int e)) < 3"
      unfolding eq py_slice_def py_bound_nat Let_def using True by (auto simp: min_def)
    then have "py_slice s (int e - 3) (int e) \<noteq> ''EL{''"
      by auto
    with False show ?thesis by simp
  qed
next
  case False
  have "py_bound (length s) (int e) \<le> e"
    by (simp add: py_bound_nat)
  then have "length (py_slice s (int e - 3) (int e)) < 3"
    using False by (simp add: py_slice_def Let_def)
  then have "py_slice s (int e - 3) (int e) \<noteq> ''EL{''"
    by auto
  with False show ?thesis by simp
qed

lemma py_slice_from_nat: "py_slice_from s (int pos) = drop pos s"
  by (auto simp: py_slice_from_def py_bound_def min_def)

lemma py_getitem_last:
  "0 < e \<Longrightarrow> e \<le> length s \<Longrightarrow> py_getitem s (int e - 1) = Some (s ! (e - 1))"
  by (auto simp: py_getitem_def Let_def nat_diff_distrib')

subsection \<open>What one iteration does\<close>

lemma add_lines:
  "add line st =
     st\<lparr>lines := lines st @ (if strip line = [] then []
                              else [at_depth (nat (indent st)) (strip line)])\<rparr>"
  by (simp add: add_def at_depth_def Let_def)


lemma PAT_match_Some:
  assumes "PAT_match s pos = Some e"
  shows "pos < e" and "e \<le> length s" and "pos < length s"
proof -
  from assms obtain k where k: "PAT (drop pos s) = Some k" and e: "e = pos + k"
    by (auto simp: PAT_match_def)
  from k have "0 < k" and "k \<le> length (drop pos s)"
    using PAT_bounds by blast+
  with e show "pos < e" and "e \<le> length s" and "pos < length s"
    by auto
qed

lemma body_no_match:
  "PAT_match s (i st) = None \<Longrightarrow> body s st = Break (add (drop (b st) s) st)"
  by (simp add: body_def py_slice_from_nat)


lemma macro_last:
  assumes "py_slice s (int e - 3) (int e) = ''EL{''"
  shows "py_getitem s (int e - 1) = Some CHR ''{''"
proof -
  from assms have e: "3 \<le> e" "e \<le> length s" and t: "take 3 (drop (e - 3) s) = ''EL{''"
    by (simp_all add: py_slice_EL)
  have "take 3 (drop (e - 3) s) ! 2 = s ! (e - 3 + 2)"
    using e by simp
  with t have "s ! (e - 3 + 2) = CHR ''{''"
    by simp
  moreover have "e - 3 + 2 = e - 1"
    using e by simp
  ultimately show ?thesis
    using e by (simp add: py_getitem_last)
qed

lemma body_match:
  assumes "PAT_match s (i st) = Some e"
  shows "body s st =
     (if py_slice s (int e - 3) (int e) = ''EL{'' then
        Continue \<lparr>b = e, i = e, indent = indent st + 1,
          lines = lines (add ''I = [ toint(v) for v in F ]'' (add ''F = s.split(DELIM)''
            (add ''s = S.strip()'' ((add ''for (L,S) in enumerate(fileinput.input()):''
              (add (take (e - 3 - b st) (drop (b st) s)) st))\<lparr>indent := indent st + 1\<rparr>))))\<rparr>
      else if s ! (e - 1) = CHR ''{'' then
        Continue \<lparr>b = e, i = e, indent = indent st + 1,
          lines = lines (add (take (e - 1 - b st) (drop (b st) s) @ '':'') st)\<rparr>
      else if s ! (e - 1) = CHR ''}'' then
        (if indent st - 1 < 0 then Raise (SyntaxError (''Invalid Syntax: '' @ drop (b st) s))
         else Continue \<lparr>b = e, i = e, indent = indent st - 1,
           lines = lines (add (take (e - 1 - b st) (drop (b st) s)) st)\<rparr>)
      else if s ! (e - 1) = CHR '';'' then
        Continue \<lparr>b = e, i = e, indent = indent st,
          lines = lines (add (take (e - 1 - b st) (drop (b st) s)) st)\<rparr>
      else Continue (st\<lparr>i := e\<rparr>))"
proof -
  from assms have e: "0 < e" "e \<le> length s"
    using PAT_match_Some [OF assms] by auto
  then have get: "py_getitem s (int e - 1) = Some (s ! (e - 1))"
    by (rule py_getitem_last)
  from e have span1: "py_slice s (int (b st)) (int e - 1) = take (e - 1 - b st) (drop (b st) s)"
    using py_slice_span [of 1 e s "b st"] by simp
  show ?thesis
  proof (cases "py_slice s (int e - 3) (int e) = ''EL{''")
    case True
    then have "3 \<le> e"
      by (simp add: py_slice_EL)
    with e have span3: "py_slice s (int (b st)) (int e - 3) = take (e - 3 - b st) (drop (b st) s)"
      using py_slice_span [of 3 e s "b st"] by simp
    from True assms show ?thesis
      by (simp add: body_def span3 Let_def add_lines)
  next
    case False
    with assms show ?thesis
      by (simp add: body_def get span1 py_slice_from_nat Let_def add_lines)
  qed
qed

lemma body_Raise_iff:
  "body s st = Raise err \<longleftrightarrow>
     (\<exists>e. PAT_match s (i st) = Some e \<and> py_getitem s (int e - 1) = Some CHR ''}'' \<and>
          indent st - 1 < 0 \<and> err = SyntaxError (''Invalid Syntax: '' @ drop (b st) s))"
proof (cases "PAT_match s (i st)")
  case None
  then show ?thesis by (simp add: body_no_match)
next
  case (Some e)
  then have "0 < e" "e \<le> length s"
    using PAT_match_Some [OF Some] by auto
  then have get: "py_getitem s (int e - 1) = Some (s ! (e - 1))"
    by (rule py_getitem_last)
  have macro: "s ! (e - 1) = CHR ''{''" if "py_slice s (int e - 3) (int e) = ''EL{''"
    using macro_last [OF that] get by simp
  show ?thesis
    unfolding body_match [OF Some] Some using macro get by auto
qed

lemma body_Continue_bounds:
  assumes "body s st = Continue st'"
  shows "i st < i st'" and "i st' \<le> length s"
proof -
  from assms obtain e where e: "PAT_match s (i st) = Some e" and "i st' = e"
    using body_Continue_i by blast
  with PAT_match_Some [OF e] show "i st < i st'" and "i st' \<le> length s"
    by simp_all
qed

lemma body_Continue_b:
  assumes "body s st = Continue st'" and "b st \<le> i st"
  shows "b st' \<le> i st'"
proof -
  from assms obtain e where e: "PAT_match s (i st) = Some e"
    using body_Continue_i by blast
  from PAT_match_Some [OF e] have "i st < e" by simp
  with assms show ?thesis
    unfolding body_match [OF e] by (auto split: if_splits)
qed

lemma body_Continue_indent:
  assumes "body s st = Continue st'" and "0 \<le> indent st"
  shows "0 \<le> indent st'"
proof -
  from assms obtain e where e: "PAT_match s (i st) = Some e"
    using body_Continue_i by blast
  from assms show ?thesis
    unfolding body_match [OF e] by (auto split: if_splits)
qed

lemma body_Break_iff:
  "body s st = Break st' \<longleftrightarrow> PAT_match s (i st) = None \<and> st' = add (drop (b st) s) st"
proof (cases "PAT_match s (i st)")
  case None
  then show ?thesis by (auto simp: body_no_match)
next
  case (Some e)
  then show ?thesis
    unfolding body_match [OF Some] by simp
qed

subsection \<open>The loop and its iterations\<close>

lemma loop_unfold:
  "loop s st =
     (if i st < length s then
        (case body s st of Continue st' \<Rightarrow> loop s st' | Break st' \<Rightarrow> Inr st' | Raise err \<Rightarrow> Inl err)
      else Inr st)"
  by (rule loop.simps)

lemma iterate_loop: "iterate n s st = Some st' \<Longrightarrow> loop s st = loop s st'"
proof (induction n arbitrary: st)
  case 0
  then show ?case by simp
next
  case (Suc n)
  from Suc.prems obtain st1 where 1: "i st < length s" "body s st = Continue st1"
    and 2: "iterate n s st1 = Some st'"
    by (auto split: if_splits outcome.splits)
  from 1 have "loop s st = loop s st1"
    by (subst loop_unfold) simp
  with Suc.IH [OF 2] show ?case by simp
qed

lemma iterate_invariant:
  assumes "iterate n s st = Some st'" and "b st \<le> i st" and "i st \<le> length s" and "0 \<le> indent st"
  shows "b st' \<le> i st' \<and> i st + n \<le> i st' \<and> i st' \<le> length s \<and> 0 \<le> indent st'"
  using assms
proof (induction n arbitrary: st)
  case 0
  then show ?case by simp
next
  case (Suc n)
  from Suc.prems(1) obtain st1 where 1: "body s st = Continue st1"
    and 2: "iterate n s st1 = Some st'"
    by (auto split: if_splits outcome.splits)
  from 1 Suc.prems have "b st1 \<le> i st1" "i st < i st1" "i st1 \<le> length s" "0 \<le> indent st1"
    using body_Continue_b body_Continue_bounds body_Continue_indent by blast+
  with Suc.IH [OF 2] show ?case by simp
qed

lemma loop_Inl_iff:
  "loop s st = Inl err \<longleftrightarrow>
     (\<exists>n st'. iterate n s st = Some st' \<and> i st' < length s \<and> body s st' = Raise err)"
proof
  show "\<exists>n st'. iterate n s st = Some st' \<and> i st' < length s \<and> body s st' = Raise err"
    if "loop s st = Inl err"
    using that
  proof (induction s st rule: loop.induct)
    case (1 s st)
    from "1.prems" have less: "i st < length s"
      by (subst (asm) loop_unfold) (simp split: if_splits)
    show ?case
    proof (cases "body s st")
      case (Continue st1)
      with less "1.prems" have "loop s st1 = Inl err"
        by (subst (asm) loop_unfold) simp
      from "1.IH" [OF less Continue this] obtain n st'
        where "iterate n s st1 = Some st'" "i st' < length s" "body s st' = Raise err"
        by blast
      with less Continue have "iterate (Suc n) s st = Some st'"
        by simp
      with \<open>i st' < length s\<close> \<open>body s st' = Raise err\<close> show ?thesis
        by blast
    next
      case (Break st1)
      with less "1.prems" show ?thesis
        by (subst (asm) loop_unfold) simp
    next
      case (Raise err')
      with less "1.prems" have "err' = err"
        by (subst (asm) loop_unfold) simp
      with Raise less have "iterate 0 s st = Some st \<and> i st < length s \<and> body s st = Raise err"
        by simp
      then show ?thesis by blast
    qed
  qed
next
  assume "\<exists>n st'. iterate n s st = Some st' \<and> i st' < length s \<and> body s st' = Raise err"
  then obtain n st' where it: "iterate n s st = Some st'" and "i st' < length s" "body s st' = Raise err"
    by blast
  then have "loop s st' = Inl err"
    by (subst loop_unfold) simp
  with iterate_loop [OF it] show "loop s st = Inl err"
    by simp
qed

subsection \<open>Stripped text\<close>

lemma strip_hd_last:
  assumes "strip line \<noteq> []"
  shows "\<not> isspace (hd (strip line))" and "\<not> isspace (last (strip line))"
proof -
  define ys where "ys = dropWhile isspace line"
  define zs where "zs = dropWhile isspace (rev ys)"
  have strip: "strip line = rev zs"
    by (simp add: strip_def ys_def zs_def)
  with assms have zs: "zs \<noteq> []"
    by simp
  then have "\<not> isspace (hd zs)"
    unfolding zs_def by (rule hd_dropWhile)
  with zs show "\<not> isspace (last (strip line))"
    by (simp add: strip last_rev)
  have "rev ys = takeWhile isspace (rev ys) @ zs"
    by (simp add: zs_def)
  then have "rev (rev ys) = rev (takeWhile isspace (rev ys) @ zs)"
    by simp
  then have ys: "ys = rev zs @ rev (takeWhile isspace (rev ys))"
    by simp
  with zs have "ys \<noteq> []"
    by auto
  then have "\<not> isspace (hd ys)"
    unfolding ys_def by (rule hd_dropWhile)
  moreover from ys zs have "hd ys = hd (rev zs)"
    by (metis Nil_is_rev_conv hd_append2)
  ultimately show "\<not> isspace (hd (strip line))"
    by (simp add: strip)
qed

lemma strip_Nil_iff: "strip line = [] \<longleftrightarrow> (\<forall>c\<in>set line. isspace c)"
proof
  assume "strip line = []"
  then have "dropWhile isspace (rev (dropWhile isspace line)) = []"
    by (simp add: strip_def)
  then have "\<forall>c\<in>set (rev (dropWhile isspace line)). isspace c"
    by simp
  then have "\<forall>c\<in>set (dropWhile isspace line). isspace c"
    by simp
  then have "dropWhile isspace line = []"
    using hd_dropWhile [of isspace line] hd_in_set by blast
  then show "\<forall>c\<in>set line. isspace c"
    by simp
next
  assume "\<forall>c\<in>set line. isspace c"
  then show "strip line = []"
    by (auto simp: strip_def dest: set_dropWhileD)
qed

subsection \<open>The shape of the output lines\<close>

lemma loop_Inr_iff:
  "loop s st = Inr st' \<longleftrightarrow>
     (\<exists>n st1. iterate n s st = Some st1 \<and>
        (if i st1 < length s then body s st1 = Break st' else st' = st1))"
proof
  show "\<exists>n st1. iterate n s st = Some st1 \<and>
        (if i st1 < length s then body s st1 = Break st' else st' = st1)"
    if "loop s st = Inr st'"
    using that
  proof (induction s st rule: loop.induct)
    case (1 s st)
    show ?case
    proof (cases "i st < length s")
      case less: True
      show ?thesis
      proof (cases "body s st")
        case (Continue st1)
        with less "1.prems" have "loop s st1 = Inr st'"
          by (subst (asm) loop_unfold) simp
        from "1.IH" [OF less Continue this] obtain n st2
          where it: "iterate n s st1 = Some st2"
            and fin: "if i st2 < length s then body s st2 = Break st' else st' = st2"
          by blast
        from it less Continue have "iterate (Suc n) s st = Some st2"
          by simp
        with fin show ?thesis
          by blast
      next
        case (Break st1)
        with less "1.prems" have "st1 = st'"
          by (subst (asm) loop_unfold) simp
        with Break less have "iterate 0 s st = Some st \<and>
            (if i st < length s then body s st = Break st' else st' = st)"
          by simp
        then show ?thesis by blast
      next
        case (Raise err)
        with less "1.prems" show ?thesis
          by (subst (asm) loop_unfold) simp
      qed
    next
      case False
      with "1.prems" have "st' = st"
        by (subst (asm) loop_unfold) simp
      with False have "iterate 0 s st = Some st \<and>
            (if i st < length s then body s st = Break st' else st' = st)"
        by simp
      then show ?thesis by blast
    qed
  qed
next
  assume "\<exists>n st1. iterate n s st = Some st1 \<and>
        (if i st1 < length s then body s st1 = Break st' else st' = st1)"
  then obtain n st1 where it: "iterate n s st = Some st1"
    and fin: "if i st1 < length s then body s st1 = Break st' else st' = st1"
    by blast
  from fin have "loop s st1 = Inr st'"
    by (subst loop_unfold) (simp split: if_splits)
  with iterate_loop [OF it] show "loop s st = Inr st'"
    by simp
qed

lemma shaped_lines: "lines st = lines st' \<Longrightarrow> shaped st = shaped st'"
  by (simp add: shaped_def)

lemma shaped_add:
  assumes "shaped st"
  shows "shaped (add line st)"
proof (cases "strip line = []")
  case True
  with assms show ?thesis by (simp add: add_lines shaped_def)
next
  case False
  then have "line_shape (at_depth (nat (indent st)) (strip line))"
    unfolding line_shape_def at_depth_def using strip_hd_last [OF False] by blast
  with assms False show ?thesis by (simp add: add_lines shaped_def)
qed

lemma body_Continue_shaped:
  assumes "body s st = Continue st'" and "shaped st"
  shows "shaped st'"
proof -
  from assms obtain e where e: "PAT_match s (i st) = Some e"
    using body_Continue_i by blast
  have 1: "shaped (add x st)" for x
    using assms(2) by (rule shaped_add)
  have "shaped ((add x' (add x st))\<lparr>indent := d\<rparr>)" for x x' d
    using shaped_add [OF 1, of x' x] by (simp add: shaped_def)
  then have "shaped (add w (add z (add y ((add x' (add x st))\<lparr>indent := d\<rparr>))))" for x x' y z w d
    by (intro shaped_add)
  then have 2: "shaped \<lparr>b = e, i = e, indent = d',
      lines = lines (add w (add z (add y ((add x' (add x st))\<lparr>indent := d\<rparr>))))\<rparr>" for x x' y z w d d'
    by (simp add: shaped_def)
  have 3: "shaped \<lparr>b = e, i = e, indent = d', lines = lines (add x st)\<rparr>" for x d'
    using 1 [of x] by (simp add: shaped_def)
  have 4: "shaped (st\<lparr>i := e\<rparr>)"
    using assms(2) by (simp add: shaped_def)
  from assms(1) show ?thesis
    unfolding body_match [OF e]
    by (auto split: if_splits simp: 2 3 4)
qed

lemma iterate_shaped:
  "iterate n s st = Some st' \<Longrightarrow> shaped st \<Longrightarrow> shaped st'"
proof (induction n arbitrary: st)
  case 0
  then show ?case by simp
next
  case (Suc n)
  from Suc.prems(1) obtain st1 where 1: "body s st = Continue st1"
    and 2: "iterate n s st1 = Some st'"
    by (auto split: if_splits outcome.splits)
  from 1 Suc.prems(2) have "shaped st1"
    by (rule body_Continue_shaped)
  with 2 show ?case
    by (rule Suc.IH)
qed

lemma loop_shaped:
  assumes "loop s st = Inr st'" and "shaped st"
  shows "shaped st'"
proof -
  from assms(1) obtain n st1 where it: "iterate n s st = Some st1"
    and fin: "if i st1 < length s then body s st1 = Break st' else st' = st1"
    unfolding loop_Inr_iff by blast
  from it assms(2) have "shaped st1"
    by (rule iterate_shaped)
  with fin show ?thesis
    by (auto simp: body_Break_iff shaped_add split: if_splits)
qed

subsection \<open>Whole runs\<close>



lemma make_script_error:
  assumes "make_script s = Inl err"
  shows "\<exists>n st e. iterate n s initial = Some st \<and> PAT_match s (i st) = Some e \<and>
           py_getitem s (int e - 1) = Some CHR ''}'' \<and> indent st = 0 \<and>
           err = SyntaxError (''Invalid Syntax: '' @ drop (b st) s)"
proof -
  from assms have "loop s initial = Inl err"
    by (simp add: make_script_def split: sum.splits)
  then obtain n st where it: "iterate n s initial = Some st" and "body s st = Raise err"
    unfolding loop_Inl_iff by blast
  then obtain e where e: "PAT_match s (i st) = Some e" "py_getitem s (int e - 1) = Some CHR ''}''"
    "indent st - 1 < 0" "err = SyntaxError (''Invalid Syntax: '' @ drop (b st) s)"
    unfolding body_Raise_iff by blast
  from iterate_invariant [OF it] have "0 \<le> indent st"
    by (simp add: initial_def)
  with e(3) have "indent st = 0"
    by simp
  with it e show ?thesis
    by blast
qed

lemma make_script_error_conv:
  assumes "iterate n s initial = Some st" and "PAT_match s (i st) = Some e"
    and "py_getitem s (int e - 1) = Some CHR ''}''" and "indent st = 0"
  shows "make_script s = Inl (SyntaxError (''Invalid Syntax: '' @ drop (b st) s))"
proof -
  from assms(2-4) have "body s st = Raise (SyntaxError (''Invalid Syntax: '' @ drop (b st) s))"
    unfolding body_Raise_iff by simp
  moreover from PAT_match_Some [OF assms(2)] have "i st < length s"
    by simp
  ultimately have "loop s initial = Inl (SyntaxError (''Invalid Syntax: '' @ drop (b st) s))"
    unfolding loop_Inl_iff using assms(1) by blast
  then show ?thesis
    by (simp add: make_script_def)
qed

section \<open>The claims\<close>

subsection \<open>Nested blocks\<close>

text \<open>
  Claim C3 says that \<^verbatim>\<open>A{B{C}D}\<close> yields five lines, at the depths 0, 1, 2, 1, 0. The
  result has four lines, not five: the last \<^verbatim>\<open>}\<close> closes the outer block with an empty
  span, for which nothing is emitted.
\<close>

theorem nested_blocks_five_lines_counterexample:
  "line_count (make_script ''A{B{C}D}'') \<noteq> Some 5"
  by code_simp

text \<open>
  Claim C3, amended: for the input \<^verbatim>\<open>A{B{C}D}\<close>, \<^verbatim>\<open>make_script\<close> yields four lines, at
  the depths 0, 1, 2, 1: the marker line \<^verbatim>\<open>A:\<close>, the marker line \<^verbatim>\<open>B:\<close>, then \<^verbatim>\<open>C\<close> and
  \<^verbatim>\<open>D\<close>. The depth is 1, 2, 1, 0 after the four iterations, and 0 at the end.
\<close>

theorem nested_blocks_four_lines:
  "make_script ''A{B{C}D}'' =
     Inr [at_depth 0 ''A:'', at_depth 1 ''B:'', at_depth 2 ''C'', at_depth 1 ''D'']
   \<and> line_count (make_script ''A{B{C}D}'') = Some 4
   \<and> depth_after 1 ''A{B{C}D}'' = Some 1
   \<and> depth_after 2 ''A{B{C}D}'' = Some 2
   \<and> depth_after 3 ''A{B{C}D}'' = Some 1
   \<and> depth_after 4 ''A{B{C}D}'' = Some 0
   \<and> map_sum id indent (loop ''A{B{C}D}'' initial) = Inr 0"
  by code_simp

subsection \<open>The loop macro inside a block\<close>

text \<open>
  Claim C4 says that \<^verbatim>\<open>P{EL{Q}}\<close> yields the line of \<^verbatim>\<open>P\<close>, the header of the iteration,
  four derivation lines at depth 2 and then \<^verbatim>\<open>Q\<close>: seven lines. The result has six lines,
  as the macro adds three lines after the header, not four.
\<close>

theorem loop_macro_four_derivation_lines_counterexample:
  "line_count (make_script ''P{EL{Q}}'') \<noteq> Some (1 + 1 + 4 + 1)"
  by code_simp

text \<open>
  Claim C4, amended: for the input \<^verbatim>\<open>P{EL{Q}}\<close>, \<^verbatim>\<open>make_script\<close> yields, in order, the
  block-open line of \<^verbatim>\<open>P\<close> at depth 0, the header of the iteration at depth 1, the three
  derivation lines at depth 2 and the statement \<^verbatim>\<open>Q\<close> at depth 2. The depth is 1 after
  the first iteration, 2 after the macro, 1 after the close of the macro's body and 0
  after the close of \<^verbatim>\<open>P\<close>.
\<close>

theorem loop_macro_in_block:
  "make_script ''P{EL{Q}}'' =
     Inr [at_depth 0 ''P:'',
          at_depth 1 ''for (L,S) in enumerate(fileinput.input()):'',
          at_depth 2 ''s = S.strip()'',
          at_depth 2 ''F = s.split(DELIM)'',
          at_depth 2 ''I = [ toint(v) for v in F ]'',
          at_depth 2 ''Q'']
   \<and> depth_after 1 ''P{EL{Q}}'' = Some 1
   \<and> depth_after 2 ''P{EL{Q}}'' = Some 2
   \<and> depth_after 3 ''P{EL{Q}}'' = Some 1
   \<and> depth_after 4 ''P{EL{Q}}'' = Some 0
   \<and> map_sum id indent (loop ''P{EL{Q}}'' initial) = Inr 0"
  by code_simp

subsection \<open>Delimiters inside a quoted literal\<close>

text \<open>
  Claim C5: for the input \<^verbatim>\<open>print("a;b{c}d")\<close>, \<^verbatim>\<open>make_script\<close> emits the statement as
  it is, as the one line of the result, at depth 0. The first match ends after the
  closing quote, at position 15, and changes neither the lines nor the depth; at
  position 15 nothing matches, and the whole text is added.
\<close>

theorem quoted_delimiters_one_line:
  \<open>make_script ''print("a;b{c}d")'' = Inr [at_depth 0 ''print("a;b{c}d")'']
   \<and> PAT_match ''print("a;b{c}d")'' 0 = Some 15
   \<and> iterate 1 ''print("a;b{c}d")'' initial = Some \<lparr>b = 0, i = 15, indent = 0, lines = []\<rparr>
   \<and> PAT_match ''print("a;b{c}d")'' 15 = None
   \<and> loop ''print("a;b{c}d")'' initial =
       Inr \<lparr>b = 0, i = 15, indent = 0, lines = [''print("a;b{c}d")'']\<rparr>\<close>
  by code_simp

subsection \<open>The text after the last delimiter\<close>

text \<open>
  Claim C6 says that the text after the last delimiter is stripped and added as the last
  line. For the input \<^verbatim>\<open>x="a"\<close> the result is empty: the match ends with the closing
  quote at the end of the input, the loop leaves by its condition, and the text from
  \<^verbatim>\<open>b\<close> on is never added. With a space after the literal, or with a literal that is
  not closed, the text is added.
\<close>

theorem tail_after_quoted_literal_dropped:
  \<open>make_script ''x="a"'' = Inr []
   \<and> make_script ''x="a" '' = Inr [''x="a"'']
   \<and> make_script ''A;"b'' = Inr [''A'', ''"b'']\<close>
  by code_simp

subsection \<open>The loop macro\<close>



subsection \<open>The error of an unbalanced close\<close>

text \<open>
  Claim C2: \<^verbatim>\<open>make_script\<close> raises an exception exactly when, after some iterations, the
  match at the scan position ends with \<^verbatim>\<open>}\<close> and the depth is 0, so that the decrement
  makes it negative; the exception is the SyntaxError with the message
  \<^verbatim>\<open>Invalid Syntax: \<close> and the text from \<^verbatim>\<open>b\<close> on. In every other case it returns lines.
  The input \<^verbatim>\<open>A}\<close> raises the error; the input \<^verbatim>\<open>A{B}\<close> gives the two lines \<^verbatim>\<open>A:\<close> at
  depth 0 and \<^verbatim>\<open>B\<close> at depth 1, and ends at depth 0.
\<close>

theorem unbalanced_close_error:
  "(make_script s = Inl err \<longleftrightarrow>
      (\<exists>n st e. iterate n s initial = Some st \<and> PAT_match s (i st) = Some e \<and>
         py_getitem s (int e - 1) = Some CHR ''}'' \<and> indent st = 0 \<and>
         err = SyntaxError (''Invalid Syntax: '' @ drop (b st) s)))
   \<and> make_script ''A}'' = Inl (SyntaxError ''Invalid Syntax: A}'')
   \<and> make_script ''A{B}'' = Inr [at_depth 0 ''A:'', at_depth 1 ''B'']
   \<and> map_sum id indent (loop ''A{B}'' initial) = Inr 0"
proof -
  have "make_script s = Inl err \<longleftrightarrow>
      (\<exists>n st e. iterate n s initial = Some st \<and> PAT_match s (i st) = Some e \<and>
         py_getitem s (int e - 1) = Some CHR ''}'' \<and> indent st = 0 \<and>
         err = SyntaxError (''Invalid Syntax: '' @ drop (b st) s))"
    using make_script_error make_script_error_conv by blast
  moreover have "make_script ''A}'' = Inl (SyntaxError ''Invalid Syntax: A}'')"
    by code_simp
  moreover have "make_script ''A{B}'' = Inr [at_depth 0 ''A:'', at_depth 1 ''B'']"
    by code_simp
  moreover have "map_sum id indent (loop ''A{B}'' initial) = Inr 0"
    by code_simp
  ultimately show ?thesis
    by blast
qed

text \<open>
  The theorem on \<^verbatim>\<open>A{}}B\<close>: after two iterations the depth is 0 again, and the match
  from position 3 ends with the second \<^verbatim>\<open>}\<close>.
\<close>

theorem unbalanced_close_error_witness:
  "make_script ''A{}}B'' = Inl (SyntaxError ''Invalid Syntax: }B'')
   \<and> iterate 2 ''A{}}B'' initial = Some \<lparr>b = 3, i = 3, indent = 0, lines = [''A:'']\<rparr>
   \<and> PAT_match ''A{}}B'' 3 = Some 4"
proof -
  have 1: "iterate 2 ''A{}}B'' initial = Some \<lparr>b = 3, i = 3, indent = 0, lines = [''A:'']\<rparr>"
    by code_simp
  have 2: "PAT_match ''A{}}B'' 3 = Some 4"
    by code_simp
  have 3: "py_getitem ''A{}}B'' 3 = Some CHR ''}''"
    by code_simp
  have "\<exists>n st e. iterate n ''A{}}B'' initial = Some st \<and> PAT_match ''A{}}B'' (i st) = Some e \<and>
         py_getitem ''A{}}B'' (int e - 1) = Some CHR ''}'' \<and> indent st = 0 \<and>
         SyntaxError ''Invalid Syntax: }B'' = SyntaxError (''Invalid Syntax: '' @ drop (b st) ''A{}}B'')"
    by (rule exI [of _ 2], rule exI [of _ "\<lparr>b = 3, i = 3, indent = 0, lines = [''A:'']\<rparr>"],
        rule exI [of _ 4]) (simp add: 1 2 3)
  then have "make_script ''A{}}B'' = Inl (SyntaxError ''Invalid Syntax: }B'')"
    using unbalanced_close_error [of "''A{}}B''" "SyntaxError ''Invalid Syntax: }B''"] by blast
  with 1 2 show ?thesis
    by blast
qed

subsection \<open>Termination\<close>

lemma make_script_cases:
  "(\<exists>ls. make_script s = Inr ls) \<or> (\<exists>t. make_script s = Inl (SyntaxError (''Invalid Syntax: '' @ t)))"
proof (cases "make_script s")
  case (Inl err)
  from make_script_error [OF Inl] obtain t where "err = SyntaxError (''Invalid Syntax: '' @ t)"
    by blast
  with Inl show ?thesis by blast
next
  case (Inr ls)
  then show ?thesis by blast
qed

text \<open>
  Claim C8: \<^verbatim>\<open>make_script\<close> terminates on every input. The loop is the total function
  \<open>loop\<close>, whose termination is proved with the measure \<^verbatim>\<open>len(s) - i\<close>. Every match ends
  after the position it starts from and inside the input, so every iteration that goes
  on moves \<^verbatim>\<open>i\<close> forward; after \<open>n\<close> iterations \<^verbatim>\<open>i\<close> is at least \<open>n\<close> and at most the
  length of the input, so there are at most as many iterations as characters. The
  result is a list of lines or the SyntaxError of the unbalanced close, and nothing else.
\<close>

theorem make_script_terminates:
  "(PAT_match s pos = Some e \<longrightarrow> pos < e \<and> e \<le> length s)
   \<and> (body s st = Continue st' \<longrightarrow> i st < i st' \<and> i st' \<le> length s)
   \<and> (iterate n s initial = Some st'' \<longrightarrow>
        n \<le> i st'' \<and> i st'' \<le> length s \<and> loop s initial = loop s st'')
   \<and> ((\<exists>ls. make_script s = Inr ls) \<or>
       (\<exists>t. make_script s = Inl (SyntaxError (''Invalid Syntax: '' @ t))))"
proof (intro conjI impI)
  assume "PAT_match s pos = Some e"
  then show "pos < e" and "e \<le> length s"
    by (rule PAT_match_Some)+
next
  assume "body s st = Continue st'"
  then show "i st < i st'" and "i st' \<le> length s"
    by (rule body_Continue_bounds)+
next
  assume it: "iterate n s initial = Some st''"
  from iterate_invariant [OF it] show "n \<le> i st''" and "i st'' \<le> length s"
    by (simp_all add: initial_def)
  from it show "loop s initial = loop s st''"
    by (rule iterate_loop)
next
  show "(\<exists>ls. make_script s = Inr ls) \<or>
       (\<exists>t. make_script s = Inl (SyntaxError (''Invalid Syntax: '' @ t)))"
    by (rule make_script_cases)
qed

text \<open>The theorem on \<^verbatim>\<open>A{B}\<close>, at its second iteration.\<close>

theorem make_script_terminates_witness:
  "PAT_match ''A{B}'' 2 = Some 4
   \<and> body ''A{B}'' \<lparr>b = 2, i = 2, indent = 1, lines = [''A:'']\<rparr> =
       Continue \<lparr>b = 4, i = 4, indent = 0, lines = [''A:'', ''    B'']\<rparr>
   \<and> iterate 2 ''A{B}'' initial = Some \<lparr>b = 4, i = 4, indent = 0, lines = [''A:'', ''    B'']\<rparr>
   \<and> (2::nat) < 4 \<and> (4::nat) \<le> length ''A{B}''
   \<and> loop ''A{B}'' initial = loop ''A{B}'' \<lparr>b = 4, i = 4, indent = 0, lines = [''A:'', ''    B'']\<rparr>"
proof -
  have 1: "PAT_match ''A{B}'' 2 = Some 4"
    by code_simp
  have 2: "body ''A{B}'' \<lparr>b = 2, i = 2, indent = 1, lines = [''A:'']\<rparr> =
       Continue \<lparr>b = 4, i = 4, indent = 0, lines = [''A:'', ''    B'']\<rparr>"
    by code_simp
  have 3: "iterate 2 ''A{B}'' initial = Some \<lparr>b = 4, i = 4, indent = 0, lines = [''A:'', ''    B'']\<rparr>"
    by code_simp
  from make_script_terminates [of "''A{B}''" 2 4 "\<lparr>b = 2, i = 2, indent = 1, lines = [''A:'']\<rparr>"
      "\<lparr>b = 4, i = 4, indent = 0, lines = [''A:'', ''    B'']\<rparr>" 2
      "\<lparr>b = 4, i = 4, indent = 0, lines = [''A:'', ''    B'']\<rparr>"]
  show ?thesis
    using 1 2 3 by simp
qed

subsection \<open>The invariant of the output lines\<close>

lemma make_script_shape:
  assumes "make_script s = Inr ls"
  shows "\<forall>l\<in>set ls. line_shape l"
proof -
  from assms obtain st where st: "loop s initial = Inr st" and ls: "ls = lines st"
    by (auto simp: make_script_def split: sum.splits)
  have "shaped initial"
    by (simp add: shaped_def initial_def)
  with st have "shaped st"
    by (rule loop_shaped)
  with ls show ?thesis
    by (simp add: shaped_def)
qed

lemma line_shape_not_blank:
  assumes "line_shape l"
  shows "strip l \<noteq> []"
proof -
  from assms obtain d t where l: "l = concat (replicate d ''    '') @ t" and t: "t \<noteq> []"
    and hd: "\<not> isspace (hd t)"
    unfolding line_shape_def by blast
  from t have "hd t \<in> set l"
    by (simp add: l)
  with hd show ?thesis
    by (auto simp: strip_Nil_iff)
qed

text \<open>
  Claim C9: the indentation unit is four spaces. Every line that \<^verbatim>\<open>make_script\<close> returns
  is the unit \<open>d\<close> times, for some \<open>d\<close>, and after it a text that is not empty and
  neither begins nor ends with whitespace. The depth is never negative after any
  number of iterations, and \<^verbatim>\<open>add\<close> puts the unit as many times as the depth at the
  moment of the call.
\<close>

theorem output_line_invariant:
  assumes "make_script s = Inr ls"
  shows "(\<forall>l\<in>set ls. \<exists>d t. l = concat (replicate d ''    '') @ t \<and> t \<noteq> [] \<and>
                         \<not> isspace (hd t) \<and> \<not> isspace (last t))
    \<and> (iterate n s initial = Some st \<longrightarrow> 0 \<le> indent st)
    \<and> lines (add line st) =
        lines st @ (if strip line = [] then []
                    else [concat (replicate (nat (indent st)) ''    '') @ strip line])"
proof (intro conjI impI)
  from make_script_shape [OF assms]
  show "\<forall>l\<in>set ls. \<exists>d t. l = concat (replicate d ''    '') @ t \<and> t \<noteq> [] \<and>
                         \<not> isspace (hd t) \<and> \<not> isspace (last t)"
    by (simp add: line_shape_def)
next
  assume "iterate n s initial = Some st"
  from iterate_invariant [OF this] show "0 \<le> indent st"
    by (simp add: initial_def)
next
  show "lines (add line st) =
        lines st @ (if strip line = [] then []
                    else [concat (replicate (nat (indent st)) ''    '') @ strip line])"
    by (simp add: add_lines at_depth_def)
qed

text \<open>
  The theorem on \<^verbatim>\<open>A{B}\<close>: its second line, the state after one iteration, and the call
  of \<^verbatim>\<open>add\<close> in that state.
\<close>

theorem output_line_invariant_witness:
  "make_script ''A{B}'' = Inr [''A:'', ''    B'']
   \<and> (\<exists>d t. ''    B'' = concat (replicate d ''    '') @ t \<and> t \<noteq> [] \<and>
             \<not> isspace (hd t) \<and> \<not> isspace (last t))
   \<and> iterate 1 ''A{B}'' initial = Some \<lparr>b = 2, i = 2, indent = 1, lines = [''A:'']\<rparr>
   \<and> lines (add '' B '' \<lparr>b = 2, i = 2, indent = 1, lines = [''A:'']\<rparr>) = [''A:'', ''    B'']"
proof -
  have 1: "make_script ''A{B}'' = Inr [''A:'', ''    B'']"
    by code_simp
  have 2: "iterate 1 ''A{B}'' initial = Some \<lparr>b = 2, i = 2, indent = 1, lines = [''A:'']\<rparr>"
    by code_simp
  have 3: "lines (add '' B '' \<lparr>b = 2, i = 2, indent = 1, lines = [''A:'']\<rparr>) = [''A:'', ''    B'']"
    by code_simp
  from output_line_invariant [OF 1, of 1 "\<lparr>b = 2, i = 2, indent = 1, lines = [''A:'']\<rparr>" "'' B ''"]
  have "\<forall>l\<in>set [''A:'', ''    B'']. \<exists>d t. l = concat (replicate d ''    '') @ t \<and> t \<noteq> [] \<and>
                         \<not> isspace (hd t) \<and> \<not> isspace (last t)"
    by blast
  then have "\<exists>d t. ''    B'' = concat (replicate d ''    '') @ t \<and> t \<noteq> [] \<and>
             \<not> isspace (hd t) \<and> \<not> isspace (last t)"
    by simp
  with 1 2 3 show ?thesis
    by blast
qed

lemma strip_blank_colon:
  assumes "strip x = []"
  shows "strip (x @ '':'') = '':''"
proof -
  from assms have sp: "\<forall>c\<in>set x. isspace c"
    by (simp add: strip_Nil_iff)
  have c: "\<not> isspace CHR '':''"
    by (simp add: isspace_def)
  from sp have "dropWhile isspace (x @ '':'') = dropWhile isspace '':''"
    by (simp add: dropWhile_append2)
  also have "\<dots> = '':''"
    using c by simp
  finally show ?thesis
    using c by (simp add: strip_def)
qed

text \<open>
  Claim C7 says that every span that is empty or only whitespace after stripping
  produces no line at all. In \<^verbatim>\<open>A; {B}\<close> the span between \<^verbatim>\<open>;\<close> and \<^verbatim>\<open>{\<close> is one space,
  and the result has the line \<^verbatim>\<open>:\<close> for it: before \<^verbatim>\<open>{\<close> the content handed to \<^verbatim>\<open>add\<close>
  is the span with \<^verbatim>\<open>:\<close> after it. So does the input \<^verbatim>\<open>{\<close>, whose span is empty.
\<close>

theorem blank_span_before_open_counterexample:
  "strip (take (4 - 1 - 2) (drop 2 ''A; {B}'')) = []
   \<and> PAT_match ''A; {B}'' 2 = Some 4
   \<and> make_script ''A; {B}'' = Inr [''A'', '':'', at_depth 1 ''B'']
   \<and> make_script ''{'' = Inr ['':'']"
  by code_simp

text \<open>
  Claim C7, amended: content that is empty or only whitespace after stripping produces
  no line. \<^verbatim>\<open>add\<close> leaves the state as it is; a blank span before \<^verbatim>\<open>;\<close> or \<^verbatim>\<open>}\<close> adds no
  line, and neither does a blank text after the last delimiter. Before a \<^verbatim>\<open>{\<close> that is
  not the trigger the content is the span with \<^verbatim>\<open>:\<close> after it, and a blank span adds
  the line \<^verbatim>\<open>:\<close> at the current depth. No line that \<^verbatim>\<open>make_script\<close> returns is blank.
  The input \<^verbatim>\<open>A;;B\<close> gives the two lines \<^verbatim>\<open>A\<close> and \<^verbatim>\<open>B\<close> and no line between them, and
  so does \<^verbatim>\<open>A; ;B\<close>.
\<close>

theorem blank_content_dropped:
  "(strip line = [] \<longrightarrow> add line st = st)
   \<and> (PAT_match s (i st) = Some e \<and> py_slice s (int e - 3) (int e) \<noteq> ''EL{'' \<and>
      (s ! (e - 1) = CHR '';'' \<or> s ! (e - 1) = CHR ''}'') \<and>
      strip (take (e - 1 - b st) (drop (b st) s)) = [] \<and> body s st = Continue st'
        \<longrightarrow> lines st' = lines st)
   \<and> (PAT_match s (i st) = None \<and> strip (drop (b st) s) = [] \<longrightarrow> body s st = Break st)
   \<and> (PAT_match s (i st) = Some e \<and> py_slice s (int e - 3) (int e) \<noteq> ''EL{'' \<and>
      s ! (e - 1) = CHR ''{'' \<and> strip (take (e - 1 - b st) (drop (b st) s)) = []
        \<longrightarrow> body s st = Continue \<lparr>b = e, i = e, indent = indent st + 1,
                                  lines = lines st @ [at_depth (nat (indent st)) '':'']\<rparr>)
   \<and> (make_script s = Inr ls \<longrightarrow> (\<forall>l\<in>set ls. strip l \<noteq> []))
   \<and> make_script ''A;;B'' = Inr [''A'', ''B'']
   \<and> make_script ''A; ;B'' = Inr [''A'', ''B'']"
proof (intro conjI impI)
  assume "strip line = []"
  then show "add line st = st"
    by (simp add: add_def)
next
  assume a: "PAT_match s (i st) = Some e \<and> py_slice s (int e - 3) (int e) \<noteq> ''EL{'' \<and>
      (s ! (e - 1) = CHR '';'' \<or> s ! (e - 1) = CHR ''}'') \<and>
      strip (take (e - 1 - b st) (drop (b st) s)) = [] \<and> body s st = Continue st'"
  then have m: "PAT_match s (i st) = Some e"
    by simp
  from a have "add (take (e - 1 - b st) (drop (b st) s)) st = st"
    by (simp add: add_def)
  with a show "lines st' = lines st"
    unfolding body_match [OF m] by (auto split: if_splits)
next
  assume "PAT_match s (i st) = None \<and> strip (drop (b st) s) = []"
  then show "body s st = Break st"
    by (simp add: body_no_match add_def)
next
  assume a: "PAT_match s (i st) = Some e \<and> py_slice s (int e - 3) (int e) \<noteq> ''EL{'' \<and>
      s ! (e - 1) = CHR ''{'' \<and> strip (take (e - 1 - b st) (drop (b st) s)) = []"
  then have m: "PAT_match s (i st) = Some e"
    by simp
  from a have "strip (take (e - 1 - b st) (drop (b st) s) @ '':'') = '':''"
    by (simp add: strip_blank_colon)
  then have "lines (add (take (e - 1 - b st) (drop (b st) s) @ '':'') st) =
      lines st @ [at_depth (nat (indent st)) '':'']"
    by (simp add: add_lines)
  with a show "body s st = Continue \<lparr>b = e, i = e, indent = indent st + 1,
                                  lines = lines st @ [at_depth (nat (indent st)) '':'']\<rparr>"
    unfolding body_match [OF m] by simp
next
  assume "make_script s = Inr ls"
  from make_script_shape [OF this] show "\<forall>l\<in>set ls. strip l \<noteq> []"
    using line_shape_not_blank by blast
next
  show "make_script ''A;;B'' = Inr [''A'', ''B'']"
    by code_simp
next
  show "make_script ''A; ;B'' = Inr [''A'', ''B'']"
    by code_simp
qed

text \<open>
  The theorem on a content of two spaces, on the blank span between the two \<^verbatim>\<open>;\<close> of
  \<^verbatim>\<open>A; ;B \<close>, on the blank text after the \<^verbatim>\<open>;\<close> of \<^verbatim>\<open>A; \<close>, on the blank span before
  the \<^verbatim>\<open>{\<close> of \<^verbatim>\<open>A; {B}\<close> and on the lines of \<^verbatim>\<open>A; ;B\<close>.
\<close>

theorem blank_content_dropped_witness:
  "strip ''  '' = [] \<and> add ''  '' \<lparr>b = 2, i = 2, indent = 0, lines = [''A'']\<rparr> =
      \<lparr>b = 2, i = 2, indent = 0, lines = [''A'']\<rparr>
   \<and> PAT_match ''A; ;B '' 2 = Some 4
   \<and> body ''A; ;B '' \<lparr>b = 2, i = 2, indent = 0, lines = [''A'']\<rparr> =
       Continue \<lparr>b = 4, i = 4, indent = 0, lines = [''A'']\<rparr>
   \<and> PAT_match ''A; '' 2 = None
   \<and> body ''A; '' \<lparr>b = 2, i = 2, indent = 0, lines = [''A'']\<rparr> =
       Break \<lparr>b = 2, i = 2, indent = 0, lines = [''A'']\<rparr>
   \<and> PAT_match ''A; {B}'' 2 = Some 4
   \<and> body ''A; {B}'' \<lparr>b = 2, i = 2, indent = 0, lines = [''A'']\<rparr> =
       Continue \<lparr>b = 4, i = 4, indent = 1, lines = [''A'', '':'']\<rparr>
   \<and> make_script ''A; ;B'' = Inr [''A'', ''B'']
   \<and> strip ''A'' \<noteq> [] \<and> strip ''B'' \<noteq> []"
proof -
  let ?st = "\<lparr>b = 2, i = 2, indent = 0, lines = [''A'']\<rparr>"
  let ?st' = "\<lparr>b = 4, i = 4, indent = 0, lines = [''A'']\<rparr>"
  have 1: "strip ''  '' = []"
    by code_simp
  have 2: "make_script ''A; ;B'' = Inr [''A'', ''B'']"
    by code_simp
  have 3: "PAT_match ''A; ;B '' 2 = Some 4" "py_slice ''A; ;B '' (int 4 - 3) (int 4) \<noteq> ''EL{''"
    "''A; ;B '' ! (4 - 1) = CHR '';''" "strip (take (4 - 1 - 2) (drop 2 ''A; ;B '')) = []"
    "body ''A; ;B '' ?st = Continue ?st'"
    by code_simp+
  have 4: "PAT_match ''A; '' 2 = None" "strip (drop 2 ''A; '') = []"
    by code_simp+
  have 5: "body ''A; '' ?st = Break ?st"
    using blank_content_dropped [of _ ?st "''A; ''"] 4 by simp
  from blank_content_dropped [of "''  ''" ?st "''A; ;B''" _ _ "[''A'', ''B'']"]
  have 6: "add ''  '' ?st = ?st" "strip ''A'' \<noteq> []" "strip ''B'' \<noteq> []"
    using 1 2 by simp_all
  have 7: "PAT_match ''A; {B}'' 2 = Some 4" "py_slice ''A; {B}'' (int 4 - 3) (int 4) \<noteq> ''EL{''"
    "''A; {B}'' ! (4 - 1) = CHR ''{''" "strip (take (4 - 1 - 2) (drop 2 ''A; {B}'')) = []"
    by code_simp+
  have 8: "body ''A; {B}'' ?st = Continue \<lparr>b = 4, i = 4, indent = 1, lines = [''A'', '':'']\<rparr>"
    using blank_content_dropped [of _ ?st "''A; {B}''" 4] 7 by (simp add: at_depth_def)
  from 1 2 3 4 5 6 7 8 show ?thesis
    by simp
qed

subsection \<open>The trigger at the end of a longer name\<close>



end
